theory Spec2Isabelle
  imports Main "HOL-Library.Word" "HOL-Library.Sublist"
begin

unbundle bit_operations_syntax

section \<open>Data model\<close>

text \<open>
  A product record as \<open>fetchProducts\<close> builds it
  (\<open>{ name, productPage, imageId, imageUrl, price }\<close>) and as the notification loop of
  \<open>checkForNewProducts\<close> extends it (\<open>product.cachedTime = ...\<close>). Records read back from
  \<open>product_cache.json\<close> may lack \<open>imageId\<close>, \<open>imageUrl\<close> and \<open>cachedTime\<close>: an absent
  field is \<open>None\<close>.
\<close>

record product =
  name :: string
  productPage :: string
  imageId :: "string option"
  imageUrl :: "string option"
  price :: string
  cachedTime :: "string option"

text \<open>
  The errors the program can raise: a rejected \<open>fetch\<close>, the \<open>Error\<close> thrown on a response
  that is not ok, the \<open>TypeError\<close> of a property read on \<open>null\<close> or \<open>undefined\<close>, the
  \<open>SyntaxError\<close> of \<open>JSON.parse\<close>, and a failing \<open>fs.writeFileSync\<close>.
\<close>

datatype error = NetworkError | HttpStatusError | TypeError | SyntaxError | WriteError

text \<open>
  One \<open>.col-6\<close> element of the listing. \<open>Element n page url p\<close> carries the values of the
  constants \<open>name\<close>, \<open>productPage\<close>, \<open>imageUrl\<close> (after the \<open>replace\<close> and \<open>split\<close> of the
  source) and \<open>price\<close> that the loop body computes from it; \<open>NoMatch\<close> is an element on
  which one of the four \<open>querySelector\<close> calls returns \<open>null\<close>, so that the property read
  on it throws a \<open>TypeError\<close> before any effect of the iteration.
\<close>

datatype element =
  Element (el_name: string) (el_productPage: string) (el_imageUrl: string) (el_price: string)
  | NoMatch

text \<open>
  The outcome of \<open>fetch(URL)\<close>, \<open>response.ok\<close> and \<open>querySelectorAll\<close>: the request is
  rejected, the status is not ok, or the page yields its list of elements.
\<close>

datatype page_result = Rejected | NotOk | Page "element list"

text \<open>
  The outcome of downloading and saving one image: \<open>fetch(imageUrl)\<close> (or \<open>arrayBuffer\<close>)
  rejects, \<open>fs.writeFileSync(imagePath, ...)\<close> throws, or the file is written.
\<close>

datatype asset_outcome = FetchFails | WriteFails | Stored

text \<open>
  What one cycle reads from its environment: the listing page, the 16 random bytes drawn
  for the element at each index, the outcome of the image download at each index, and the
  wall-clock time read for the new product at each position of \<open>newProducts\<close>.
\<close>

record world =
  page :: page_result
  randomBytes :: "nat \<Rightarrow> 128 word"
  image_response :: "nat \<Rightarrow> asset_outcome"
  clock :: "nat \<Rightarrow> string"

text \<open>
  \<open>config.json\<close>: the \<open>slack\<close> object may be absent, and so may each of its fields.
\<close>

record slack_config =
  enableBot :: "bool option"
  token :: "string option"
  channelName :: "string option"

record config =
  slack :: "slack_config option"

text \<open>
  The message handed to \<open>axios.post\<close>: the bearer token of the authorization header, the
  channel, and the four arguments of \<open>sendToSlack\<close>.
\<close>

record slack_message =
  msg_token :: "string option"
  msg_channel :: "string option"
  msg_name :: string
  msg_price :: string
  msg_link :: string
  msg_image :: "string option"

text \<open>
  The observable effects, in the order the program performs them: \<open>ImageFetch n url\<close> is
  the call \<open>fetch(imageUrl)\<close> made while the element named \<open>n\<close> is processed,
  \<open>ImageWrite id url\<close> the write of the file \<open>{imageId}{extname(imageUrl)}\<close>,
  \<open>NewProductDetected p\<close> the \<open>console.log\<close> of \<open>notifyNewProduct\<close>, \<open>SlackPost m\<close> the call
  of \<open>axios.post\<close>, and \<open>CacheWrite ps\<close> the \<open>fs.writeFileSync\<close> of \<open>saveCache\<close>.
\<close>

datatype event =
  ImageFetch string string
  | ImageWrite string string
  | NewProductDetected product
  | SlackPost slack_message
  | CacheWrite "product list"

text \<open>
  The content of \<open>product_cache.json\<close>, seen through \<open>JSON.parse\<close>: the array of records
  it denotes, or a text on which \<open>JSON.parse\<close> throws (a text that parses to something
  other than an array of records is not considered). \<open>JSON.stringify\<close> followed by
  \<open>JSON.parse\<close> gives an array of string-valued records back unchanged, so that
  \<open>saveCache\<close>, whose write is taken to succeed, stores \<open>Records\<close>.
\<close>

datatype cache_content = Records "product list" | Unparsable

text \<open>
  The state of the system: the cache file (\<open>None\<close> when it does not exist) and the log of
  the effects performed so far.
\<close>

record system =
  cache_file :: "cache_content option"
  events :: "event list"

section \<open>The product store\<close>

definition loadCache :: "system \<Rightarrow> error + product list" where
  "loadCache s =
     (case cache_file s of
        None \<Rightarrow> Inr []
      | Some Unparsable \<Rightarrow> Inl SyntaxError
      | Some (Records ps) \<Rightarrow> Inr ps)"

definition saveCache :: "product list \<Rightarrow> system \<Rightarrow> system" where
  "saveCache products s =
     s\<lparr>cache_file := Some (Records products), events := events s @ [CacheWrite products]\<rparr>"

section \<open>Fetching the listing and resolving images\<close>

text \<open>\<open>crypto.randomBytes(16).toString('hex')\<close>: 32 lower-case hexadecimal digits.\<close>

definition hex_digit :: "nat \<Rightarrow> char" where
  "hex_digit n = ''0123456789abcdef'' ! (n mod 16)"

definition to_hex :: "128 word \<Rightarrow> string" where
  "to_hex w = map (\<lambda>k. hex_digit (unat (drop_bit (4 * k) w AND 15))) (rev [0..<32])"

text \<open>The branch that downloads: a fresh identifier, the fetch, the write.\<close>

definition downloadImage :: "world \<Rightarrow> nat \<Rightarrow> string \<Rightarrow> string \<Rightarrow> system \<Rightarrow> (error + string) \<times> system" where
  "downloadImage w i n url s =
     (let iid = to_hex (randomBytes w i);
          s1 = s\<lparr>events := events s @ [ImageFetch n url]\<rparr>
      in case image_response w i of
           FetchFails \<Rightarrow> (Inl NetworkError, s1)
         | WriteFails \<Rightarrow> (Inl WriteError, s1)
         | Stored \<Rightarrow> (Inr iid, s1\<lparr>events := events s1 @ [ImageWrite iid url]\<rparr>))"

text \<open>
  The test \<open>!cachedProduct || !cachedProduct.imageId\<close> and its two branches: an
  \<open>imageId\<close> that is absent or the empty string is falsy.
\<close>

definition resolveImage :: "world \<Rightarrow> product list \<Rightarrow> nat \<Rightarrow> string \<Rightarrow> string \<Rightarrow> system \<Rightarrow> (error + string) \<times> system" where
  "resolveImage w cachedProducts i n url s =
     (case find (\<lambda>p. name p = n) cachedProducts of
        None \<Rightarrow> downloadImage w i n url s
      | Some cachedProduct \<Rightarrow>
          (case imageId cachedProduct of
             None \<Rightarrow> downloadImage w i n url s
           | Some v \<Rightarrow> if v = [] then downloadImage w i n url s else (Inr v, s)))"

text \<open>The \<open>for\<close> loop of \<open>fetchProducts\<close>, from index \<open>i\<close> on, with the array built so far.\<close>

fun fetch_loop :: "world \<Rightarrow> product list \<Rightarrow> element list \<Rightarrow> nat \<Rightarrow> product list \<Rightarrow> system \<Rightarrow> (error + product list) \<times> system" where
  "fetch_loop w cachedProducts [] i products s = (Inr products, s)"
| "fetch_loop w cachedProducts (NoMatch # els) i products s = (Inl TypeError, s)"
| "fetch_loop w cachedProducts (Element n pg url pr # els) i products s =
     (case resolveImage w cachedProducts i n url s of
        (Inl e, s') \<Rightarrow> (Inl e, s')
      | (Inr iid, s') \<Rightarrow>
          fetch_loop w cachedProducts els (Suc i)
            (products @ [\<lparr>name = n, productPage = pg, imageId = Some iid,
                          imageUrl = Some url, price = pr, cachedTime = None\<rparr>]) s')"

text \<open>The \<open>try\<close> block of \<open>fetchProducts\<close>.\<close>

definition fetchProducts_try :: "world \<Rightarrow> system \<Rightarrow> (error + product list) \<times> system" where
  "fetchProducts_try w s =
     (case page w of
        Rejected \<Rightarrow> (Inl NetworkError, s)
      | NotOk \<Rightarrow> (Inl HttpStatusError, s)
      | Page productElements \<Rightarrow>
          (case loadCache s of
             Inl e \<Rightarrow> (Inl e, s)
           | Inr cachedProducts \<Rightarrow> fetch_loop w cachedProducts productElements 0 [] s))"

text \<open>\<open>fetchProducts\<close>: the \<open>catch\<close> clause turns every error into the empty array.\<close>

definition fetchProducts :: "world \<Rightarrow> system \<Rightarrow> product list \<times> system" where
  "fetchProducts w s =
     (case fetchProducts_try w s of
        (Inl e, s') \<Rightarrow> ([], s')
      | (Inr products, s') \<Rightarrow> (products, s'))"

section \<open>Notification\<close>

text \<open>
  \<open>sendToSlack\<close> up to its \<open>await\<close>: the flag test with optional chaining, then the reads
  of \<open>config.slack.token\<close> and \<open>config.slack.channelName\<close>, which throw when \<open>config.slack\<close>
  is undefined, then the call of \<open>axios.post\<close>, whose rejection the \<open>.catch\<close> handler logs.
\<close>

definition sendToSlack :: "config \<Rightarrow> string \<Rightarrow> string \<Rightarrow> string \<Rightarrow> string option \<Rightarrow> system \<Rightarrow> (error + unit) \<times> system" where
  "sendToSlack cfg newProductName newProductPrice newProductLink newProductImageUrl s =
     (if (case slack cfg of None \<Rightarrow> None | Some sl \<Rightarrow> enableBot sl) = Some False
      then (Inr (), s)
      else (case slack cfg of
              None \<Rightarrow> (Inl TypeError, s)
            | Some sl \<Rightarrow>
                (Inr (), s\<lparr>events := events s @
                   [SlackPost \<lparr>msg_token = token sl, msg_channel = channelName sl,
                               msg_name = newProductName, msg_price = newProductPrice,
                               msg_link = newProductLink, msg_image = newProductImageUrl\<rparr>]\<rparr>)))"

text \<open>
  \<open>notifyNewProduct\<close> logs the product and calls \<open>sendToSlack\<close> without awaiting it: a
  rejection of that promise reaches no handler of the cycle.
\<close>

definition notifyNewProduct :: "config \<Rightarrow> product \<Rightarrow> system \<Rightarrow> system" where
  "notifyNewProduct cfg product s =
     snd (sendToSlack cfg (name product) (price product) (productPage product) (imageUrl product)
            (s\<lparr>events := events s @ [NewProductDetected product]\<rparr>))"

section \<open>The cycle\<close>

text \<open>The filter of \<open>checkForNewProducts\<close> that computes \<open>newProducts\<close>.\<close>

definition newProducts :: "product list \<Rightarrow> product list \<Rightarrow> product list" where
  "newProducts currentProducts cachedProducts =
     filter (\<lambda>product. \<not> list_ex (\<lambda>cachedProduct. name cachedProduct = name product) cachedProducts)
       currentProducts"

text \<open>
  The \<open>forEach\<close> over \<open>newProducts\<close>: each product is stamped with the time read at its
  turn and then notified. The stamped objects are the ones \<open>saveCache\<close> receives.
\<close>

fun notify_each :: "config \<Rightarrow> world \<Rightarrow> nat \<Rightarrow> product list \<Rightarrow> system \<Rightarrow> product list \<times> system" where
  "notify_each cfg w k [] s = ([], s)"
| "notify_each cfg w k (product # ps) s =
     (let stamped = product\<lparr>cachedTime := Some (clock w k)\<rparr>;
          s1 = notifyNewProduct cfg stamped s;
          (rest, s2) = notify_each cfg w (Suc k) ps s1
      in (stamped # rest, s2))"

definition checkForNewProducts :: "config \<Rightarrow> world \<Rightarrow> system \<Rightarrow> (error + unit) \<times> system" where
  "checkForNewProducts cfg w s =
     (let (currentProducts, s1) = fetchProducts w s
      in case loadCache s1 of
           Inl e \<Rightarrow> (Inl e, s1)
         | Inr cachedProducts \<Rightarrow>
             (let new = newProducts currentProducts cachedProducts;
                  (new', s2) = (if cachedProducts \<noteq> [] then notify_each cfg w 0 new s1
                                else (new, s1));
                  s3 = (if new' \<noteq> [] then saveCache (cachedProducts @ new') s2 else s2)
              in (Inr (), s3)))"

text \<open>
  The schedule: \<open>checkForNewProducts\<close> is invoked once at start and then at each tick of
  the interval; one world per invocation, each cycle starting from the state the previous
  one left (a cycle ends before the next tick). The remaining cycles are run also after
  a cycle whose promise rejects, where a Node process that ends on an unhandled rejection
  would stop: the states the program reaches are among those of \<open>run_cycles\<close>.
\<close>

fun run_cycles :: "config \<Rightarrow> world list \<Rightarrow> system \<Rightarrow> system" where
  "run_cycles cfg [] s = s"
| "run_cycles cfg (w # ws) s = run_cycles cfg ws (snd (checkForNewProducts cfg w s))"

text \<open>
  The state in which \<open>checkForNewProducts\<close> reaches its last statement, the guarded call
  of \<open>saveCache\<close>: the state a process that dies between notifying and saving leaves.
\<close>

definition before_saveCache :: "config \<Rightarrow> world \<Rightarrow> system \<Rightarrow> system" where
  "before_saveCache cfg w s =
     (let (currentProducts, s1) = fetchProducts w s
      in case loadCache s1 of
           Inl e \<Rightarrow> s1
         | Inr cachedProducts \<Rightarrow>
             (if cachedProducts \<noteq> []
              then snd (notify_each cfg w 0 (newProducts currentProducts cachedProducts) s1)
              else s1))"

section \<open>The earlier variant\<close>

text \<open>
  The repository holds two versions of the program. The definitions above follow the one
  with the Slack sink. \<open>main.js\<close> is the earlier one: its \<open>loadCache\<close>, \<open>saveCache\<close> and
  filter are the same, its \<open>fetchProducts\<close> builds records without \<open>imageUrl\<close>, its
  \<open>notifyNewProduct\<close> only logs, and its \<open>checkForNewProducts\<close> notifies whether or not
  the cache is empty.
\<close>

fun main_js_fetch_loop :: "world \<Rightarrow> product list \<Rightarrow> element list \<Rightarrow> nat \<Rightarrow> product list \<Rightarrow> system \<Rightarrow> (error + product list) \<times> system" where
  "main_js_fetch_loop w cachedProducts [] i products s = (Inr products, s)"
| "main_js_fetch_loop w cachedProducts (NoMatch # els) i products s = (Inl TypeError, s)"
| "main_js_fetch_loop w cachedProducts (Element n pg url pr # els) i products s =
     (case resolveImage w cachedProducts i n url s of
        (Inl e, s') \<Rightarrow> (Inl e, s')
      | (Inr iid, s') \<Rightarrow>
          main_js_fetch_loop w cachedProducts els (Suc i)
            (products @ [\<lparr>name = n, productPage = pg, imageId = Some iid,
                          imageUrl = None, price = pr, cachedTime = None\<rparr>]) s')"

definition main_js_fetchProducts :: "world \<Rightarrow> system \<Rightarrow> product list \<times> system" where
  "main_js_fetchProducts w s =
     (case page w of
        Rejected \<Rightarrow> ([], s)
      | NotOk \<Rightarrow> ([], s)
      | Page productElements \<Rightarrow>
          (case loadCache s of
             Inl e \<Rightarrow> ([], s)
           | Inr cachedProducts \<Rightarrow>
               (case main_js_fetch_loop w cachedProducts productElements 0 [] s of
                  (Inl e, s') \<Rightarrow> ([], s')
                | (Inr products, s') \<Rightarrow> (products, s'))))"

definition main_js_notifyNewProduct :: "product \<Rightarrow> system \<Rightarrow> system" where
  "main_js_notifyNewProduct product s = s\<lparr>events := events s @ [NewProductDetected product]\<rparr>"

fun main_js_notify_each :: "world \<Rightarrow> nat \<Rightarrow> product list \<Rightarrow> system \<Rightarrow> product list \<times> system" where
  "main_js_notify_each w k [] s = ([], s)"
| "main_js_notify_each w k (product # ps) s =
     (let stamped = product\<lparr>cachedTime := Some (clock w k)\<rparr>;
          s1 = main_js_notifyNewProduct stamped s;
          (rest, s2) = main_js_notify_each w (Suc k) ps s1
      in (stamped # rest, s2))"

definition main_js_checkForNewProducts :: "world \<Rightarrow> system \<Rightarrow> (error + unit) \<times> system" where
  "main_js_checkForNewProducts w s =
     (let (currentProducts, s1) = main_js_fetchProducts w s
      in case loadCache s1 of
           Inl e \<Rightarrow> (Inl e, s1)
         | Inr cachedProducts \<Rightarrow>
             (let (new', s2) = main_js_notify_each w 0 (newProducts currentProducts cachedProducts) s1;
                  s3 = (if new' \<noteq> [] then saveCache (cachedProducts @ new') s2 else s2)
              in (Inr (), s3)))"

section \<open>Observations on a run\<close>

text \<open>The events a computation from \<open>s\<close> to \<open>s'\<close> has added to the log.\<close>

definition emitted :: "system \<Rightarrow> system \<Rightarrow> event list" where
  "emitted s s' = drop (length (events s)) (events s')"

text \<open>The products notified by a sequence of events, in order.\<close>

fun notified :: "event list \<Rightarrow> product list" where
  "notified [] = []"
| "notified (NewProductDetected p # evs) = p # notified evs"
| "notified (e # evs) = notified evs"

fun is_download :: "event \<Rightarrow> bool" where
  "is_download (ImageFetch n url) = True"
| "is_download (ImageWrite iid url) = True"
| "is_download e = False"

fun is_notification :: "event \<Rightarrow> bool" where
  "is_notification (NewProductDetected p) = True"
| "is_notification (SlackPost m) = True"
| "is_notification e = False"

fun is_CacheWrite :: "event \<Rightarrow> bool" where
  "is_CacheWrite (CacheWrite ps) = True"
| "is_CacheWrite e = False"

text \<open>The number of image requests made for the product named \<open>n\<close>.\<close>

fun image_fetches :: "string \<Rightarrow> event list \<Rightarrow> nat" where
  "image_fetches n [] = 0"
| "image_fetches n (ImageFetch m url # evs) = (if m = n then 1 else 0) + image_fetches n evs"
| "image_fetches n (e # evs) = image_fetches n evs"

text \<open>The names of the elements of a listing, in order.\<close>

fun names_of :: "element list \<Rightarrow> string list" where
  "names_of [] = []"
| "names_of (Element n pg url pr # els) = n # names_of els"
| "names_of (NoMatch # els) = names_of els"

definition listing_names :: "world \<Rightarrow> string list" where
  "listing_names w = (case page w of Page els \<Rightarrow> names_of els | _ \<Rightarrow> [])"

text \<open>
  The identifier that the lookup of \<open>resolveImage\<close> finds for a name: that of the first
  cached record of this name, when it has a non-empty one.
\<close>

definition stored_imageId :: "product list \<Rightarrow> string \<Rightarrow> string option" where
  "stored_imageId cachedProducts n =
     (case find (\<lambda>p. name p = n) cachedProducts of
        None \<Rightarrow> None
      | Some c \<Rightarrow> (case imageId c of None \<Rightarrow> None | Some v \<Rightarrow> if v = [] then None else Some v))"

text \<open>The records of \<open>newProducts\<close> after the \<open>forEach\<close> has stamped them, from position \<open>k\<close>.\<close>

fun stamp :: "world \<Rightarrow> nat \<Rightarrow> product list \<Rightarrow> product list" where
  "stamp w k [] = []"
| "stamp w k (p # ps) = p\<lparr>cachedTime := Some (clock w k)\<rparr> # stamp w (Suc k) ps"

text \<open>
  The property "every notified record was persisted before its notification": \<open>saved\<close>
  is the content of the store when the events start.
\<close>

fun persisted_before_notified :: "product list \<Rightarrow> event list \<Rightarrow> bool" where
  "persisted_before_notified saved [] = True"
| "persisted_before_notified saved (CacheWrite ps # evs) = persisted_before_notified ps evs"
| "persisted_before_notified saved (NewProductDetected p # evs) =
     (p \<in> set saved \<and> persisted_before_notified saved evs)"
| "persisted_before_notified saved (e # evs) = persisted_before_notified saved evs"

text \<open>
  A step that only downloads: the cache file is untouched and the log grows by download
  events.
\<close>

definition only_downloads :: "system \<Rightarrow> system \<Rightarrow> bool" where
  "only_downloads s s' \<longleftrightarrow>
     cache_file s' = cache_file s \<and> (\<exists>ds. events s' = events s @ ds \<and> list_all is_download ds)"

text \<open>
  A record built by the loop carries a non-empty identifier, the stored one when the store
  has one for its name.
\<close>

definition carries_id :: "product list \<Rightarrow> product \<Rightarrow> bool" where
  "carries_id c q \<longleftrightarrow>
     (case imageId q of
        None \<Rightarrow> False
      | Some v \<Rightarrow> v \<noteq> [] \<and> (case stored_imageId c (name q) of None \<Rightarrow> True | Some u \<Rightarrow> u = v))"

section \<open>Example inputs\<close>

definition kraken :: element where
  "kraken = Element ''Kraken X60'' ''https://wcproducts.com/products/kraken''
     ''https://wcproducts.com/cdn/shop/files/kraken_145x.png'' ''$217.99''"

definition cancoder :: element where
  "cancoder = Element ''CANcoder'' ''https://wcproducts.com/products/cancoder''
     ''https://wcproducts.com/cdn/shop/files/cancoder_145x.png'' ''$69.99''"

definition talon :: element where
  "talon = Element ''TalonFXS'' ''https://wcproducts.com/products/talonfxs''
     ''https://wcproducts.com/cdn/shop/files/TalonFXS_145x.png'' ''$100''"

definition pigeon :: product where
  "pigeon = \<lparr>name = ''Pigeon 2.0'', productPage = ''https://wcproducts.com/products/pigeon'',
     imageId = Some ''0123456789abcdef0123456789abcdef'',
     imageUrl = Some ''https://wcproducts.com/cdn/shop/files/pigeon_145x.png'',
     price = ''$199.99'', cachedTime = None\<rparr>"

text \<open>A record of an older store, written without \<open>imageId\<close>.\<close>

definition old_kraken :: product where
  "old_kraken = \<lparr>name = ''Kraken X60'', productPage = ''https://wcproducts.com/products/kraken'',
     imageId = None, imageUrl = None, price = ''$217.99'', cachedTime = None\<rparr>"

definition product_of :: "element \<Rightarrow> string \<Rightarrow> string option \<Rightarrow> product" where
  "product_of e iid t = \<lparr>name = el_name e, productPage = el_productPage e, imageId = Some iid,
     imageUrl = Some (el_imageUrl e), price = el_price e, cachedTime = t\<rparr>"

definition world_of :: "element list \<Rightarrow> world" where
  "world_of els = \<lparr>page = Page els, randomBytes = (\<lambda>i. word_of_nat (Suc i)),
     image_response = (\<lambda>i. Stored), clock = (\<lambda>k. ''2024-05-01T12:00:00.000Z'')\<rparr>"

definition third_image_fails :: world where
  "third_image_fails = (world_of [kraken, cancoder, talon])
     \<lparr>image_response := (\<lambda>i. if i = 2 then FetchFails else Stored)\<rparr>"

definition later_listing :: world where
  "later_listing = (world_of [talon, kraken])\<lparr>randomBytes := (\<lambda>i. 255)\<rparr>"

definition later_draw :: world where
  "later_draw = (world_of [kraken])\<lparr>randomBytes := (\<lambda>i. 255)\<rparr>"

definition second_image_fails :: world where
  "second_image_fails = (world_of [kraken, talon])
     \<lparr>image_response := (\<lambda>i. if i = 1 then FetchFails else Stored)\<rparr>"

definition store_of :: "product list \<Rightarrow> system" where
  "store_of ps = \<lparr>cache_file = Some (Records ps), events = []\<rparr>"

definition no_store :: system where
  "no_store = \<lparr>cache_file = None, events = []\<rparr>"

definition slack_off :: config where
  "slack_off = \<lparr>slack = Some \<lparr>enableBot = Some False, token = None, channelName = None\<rparr>\<rparr>"

definition no_slack :: config where
  "no_slack = \<lparr>slack = None\<rparr>"

section \<open>Basic facts\<close>

subsection \<open>The log\<close>

lemma notified_append: "notified (xs @ ys) = notified xs @ notified ys"
  by (induction xs rule: notified.induct) auto

lemma image_fetches_append: "image_fetches n (xs @ ys) = image_fetches n xs + image_fetches n ys"
  by (induction n xs rule: image_fetches.induct) auto

lemma notified_downloads: "list_all is_download ds \<Longrightarrow> notified ds = []"
  by (induction ds rule: notified.induct) auto

lemma downloads_no_CacheWrite: "list_all is_download ds \<Longrightarrow> \<not> list_ex is_CacheWrite ds"
  by (induction ds) (auto elim: is_download.elims)

lemma emitted_append: "events s' = events s @ evs \<Longrightarrow> emitted s s' = evs"
  by (simp add: emitted_def)

lemma only_downloads_refl: "only_downloads s s"
  by (simp add: only_downloads_def)

lemma only_downloads_trans:
  "only_downloads s s' \<Longrightarrow> only_downloads s' s'' \<Longrightarrow> only_downloads s s''"
  by (auto simp: only_downloads_def)

lemma downloadImage_only_downloads:
  "downloadImage w i n url s = (r, s') \<Longrightarrow> only_downloads s s'"
  by (auto simp: downloadImage_def only_downloads_def Let_def split: asset_outcome.splits)

lemma resolveImage_stored:
  "resolveImage w c i n url s =
     (case stored_imageId c n of None \<Rightarrow> downloadImage w i n url s | Some v \<Rightarrow> (Inr v, s))"
  by (simp add: resolveImage_def stored_imageId_def split: option.splits)

lemma resolveImage_only_downloads:
  "resolveImage w c i n url s = (r, s') \<Longrightarrow> only_downloads s s'"
  by (auto simp: resolveImage_stored only_downloads_refl split: option.splits
           dest: downloadImage_only_downloads)

lemma fetch_loop_only_downloads:
  "fetch_loop w c els i acc s = (r, s') \<Longrightarrow> only_downloads s s'"
proof (induction w c els i acc s rule: fetch_loop.induct)
  case (1 w c i acc s)
  then show ?case by (simp add: only_downloads_refl)
next
  case (2 w c els i acc s)
  then show ?case by (simp add: only_downloads_refl)
next
  case (3 w c n pg url pr els i acc s)
  obtain r1 s1 where res: "resolveImage w c i n url s = (r1, s1)"
    by (cases "resolveImage w c i n url s")
  have step: "only_downloads s s1"
    using res by (rule resolveImage_only_downloads)
  show ?case
  proof (cases r1)
    case (Inl e)
    with res "3.prems" have "s' = s1" by simp
    with step show ?thesis by simp
  next
    case (Inr iid)
    with res "3.prems" "3.IH" have "only_downloads s1 s'" by simp
    with step show ?thesis by (rule only_downloads_trans)
  qed
qed

lemma fetchProducts_try_only_downloads:
  "fetchProducts_try w s = (r, s') \<Longrightarrow> only_downloads s s'"
  by (auto simp: fetchProducts_try_def only_downloads_refl
           split: page_result.splits sum.splits dest: fetch_loop_only_downloads)

lemma fetchProducts_only_downloads:
  "fetchProducts w s = (ps, s') \<Longrightarrow> only_downloads s s'"
  by (auto simp: fetchProducts_def split: prod.splits sum.splits
           dest: fetchProducts_try_only_downloads)

lemma only_downloads_loadCache: "only_downloads s s' \<Longrightarrow> loadCache s' = loadCache s"
  by (simp add: only_downloads_def loadCache_def)


subsection \<open>Notification\<close>

lemma sendToSlack_frame:
  "sendToSlack cfg a b c d s = (r, s') \<Longrightarrow>
     cache_file s' = cache_file s \<and>
     (\<exists>ns. events s' = events s @ ns \<and> notified ns = [] \<and> \<not> list_ex is_CacheWrite ns
           \<and> list_all is_notification ns)"
  by (auto simp: sendToSlack_def split: if_splits option.splits)

lemma notifyNewProduct_frame:
  "cache_file (notifyNewProduct cfg p s) = cache_file s \<and>
   (\<exists>ns. events (notifyNewProduct cfg p s) = events s @ ns \<and> notified ns = [p]
         \<and> \<not> list_ex is_CacheWrite ns \<and> list_all is_notification ns)"
proof -
  obtain r s' where res:
    "sendToSlack cfg (name p) (price p) (productPage p) (imageUrl p)
       (s\<lparr>events := events s @ [NewProductDetected p]\<rparr>) = (r, s')"
    by (cases "sendToSlack cfg (name p) (price p) (productPage p) (imageUrl p)
       (s\<lparr>events := events s @ [NewProductDetected p]\<rparr>)")
  from sendToSlack_frame [OF res] obtain ns where
    c: "cache_file s' = cache_file s" and
    e: "events s' = (events s @ [NewProductDetected p]) @ ns" and
    n: "notified ns = []" "\<not> list_ex is_CacheWrite ns" "list_all is_notification ns"
    by auto
  have s': "notifyNewProduct cfg p s = s'"
    using res by (simp add: notifyNewProduct_def)
  have "events s' = events s @ (NewProductDetected p # ns)"
    using e by simp
  moreover have "notified (NewProductDetected p # ns) = [p]"
    using n by simp
  moreover have "\<not> list_ex is_CacheWrite (NewProductDetected p # ns)"
    using n by simp
  moreover have "list_all is_notification (NewProductDetected p # ns)"
    using n by simp
  ultimately show ?thesis
    using c s' by blast
qed

lemma notify_each_fst: "fst (notify_each cfg w k ps s) = stamp w k ps"
proof (induction ps arbitrary: k s)
  case Nil
  show ?case by simp
next
  case (Cons p ps)
  define s1 where "s1 = notifyNewProduct cfg (p\<lparr>cachedTime := Some (clock w k)\<rparr>) s"
  obtain rest s2 where r: "notify_each cfg w (Suc k) ps s1 = (rest, s2)"
    by (cases "notify_each cfg w (Suc k) ps s1")
  have "rest = stamp w (Suc k) ps"
    using Cons.IH [of "Suc k" s1] r by simp
  then show ?case
    using r by (simp add: Let_def s1_def)
qed

lemma notify_each_frame:
  "cache_file (snd (notify_each cfg w k ps s)) = cache_file s \<and>
   (\<exists>ns. events (snd (notify_each cfg w k ps s)) = events s @ ns
         \<and> notified ns = stamp w k ps \<and> \<not> list_ex is_CacheWrite ns
         \<and> list_all is_notification ns)"
proof (induction ps arbitrary: k s)
  case Nil
  show ?case by simp
next
  case (Cons p ps)
  define p' where "p' = p\<lparr>cachedTime := Some (clock w k)\<rparr>"
  define s1 where "s1 = notifyNewProduct cfg p' s"
  from notifyNewProduct_frame [of cfg p' s] obtain ns1 where
    c1: "cache_file s1 = cache_file s" and
    e1: "events s1 = events s @ ns1" and
    n1: "notified ns1 = [p']" "\<not> list_ex is_CacheWrite ns1" "list_all is_notification ns1"
    unfolding s1_def by blast
  from Cons.IH [of "Suc k" s1] obtain ns2 where
    c2: "cache_file (snd (notify_each cfg w (Suc k) ps s1)) = cache_file s1" and
    e2: "events (snd (notify_each cfg w (Suc k) ps s1)) = events s1 @ ns2" and
    n2: "notified ns2 = stamp w (Suc k) ps" "\<not> list_ex is_CacheWrite ns2"
        "list_all is_notification ns2"
    by blast
  have unfold: "snd (notify_each cfg w k (p # ps) s) = snd (notify_each cfg w (Suc k) ps s1)"
    by (simp add: Let_def p'_def s1_def split: prod.splits)
  have "events (snd (notify_each cfg w k (p # ps) s)) = events s @ (ns1 @ ns2)"
    using unfold e1 e2 by simp
  moreover have "notified (ns1 @ ns2) = stamp w k (p # ps)"
    using n1 n2 by (simp add: notified_append p'_def)
  moreover have "\<not> list_ex is_CacheWrite (ns1 @ ns2)"
    using n1 n2 by simp
  moreover have "list_all is_notification (ns1 @ ns2)"
    using n1 n2 by simp
  moreover have "cache_file (snd (notify_each cfg w k (p # ps) s)) = cache_file s"
    using unfold c1 c2 by simp
  ultimately show ?case by blast
qed

lemma stamp_names: "map name (stamp w k ps) = map name ps"
  by (induction ps arbitrary: k) auto

lemma stamp_imageIds: "map imageId (stamp w k ps) = map imageId ps"
  by (induction ps arbitrary: k) auto

lemma stamp_length: "length (stamp w k ps) = length ps"
  by (induction ps arbitrary: k) auto

lemma stamp_Nil_iff: "stamp w k ps = [] \<longleftrightarrow> ps = []"
  by (cases ps) auto

subsection \<open>The filter\<close>

lemma newProducts_filter:
  "newProducts cur known = filter (\<lambda>p. name p \<notin> name ` set known) cur"
  unfolding newProducts_def list_ex_iff by (rule filter_cong) (auto simp: image_iff)

lemma newProducts_empty_known: "newProducts cur [] = cur"
  by (simp add: newProducts_def)

lemma newProducts_Nil: "newProducts [] known = []"
  by (simp add: newProducts_def)

subsection \<open>The cycle, unfolded\<close>

lemma checkForNewProducts_unfold:
  assumes "fetchProducts w s = (cur, s1)" and "loadCache s = Inr cached"
  shows "snd (checkForNewProducts cfg w s) =
     (if cached = [] then (if cur = [] then s1 else saveCache cur s1)
      else if newProducts cur cached = [] then s1
      else saveCache (cached @ stamp w 0 (newProducts cur cached))
             (snd (notify_each cfg w 0 (newProducts cur cached) s1)))"
proof -
  have l: "loadCache s1 = Inr cached"
    using assms fetchProducts_only_downloads only_downloads_loadCache by metis
  show ?thesis
  proof (cases "cached = []")
    case True
    then show ?thesis
      using assms(1) l by (simp add: checkForNewProducts_def newProducts_empty_known)
  next
    case False
    obtain ns s2 where ne: "notify_each cfg w 0 (newProducts cur cached) s1 = (ns, s2)"
      by (cases "notify_each cfg w 0 (newProducts cur cached) s1")
    have ns: "ns = stamp w 0 (newProducts cur cached)"
      using notify_each_fst [of cfg w 0 "newProducts cur cached" s1] ne by simp
    have s2: "newProducts cur cached = [] \<Longrightarrow> s2 = s1"
      using ne by simp
    show ?thesis
      using False assms(1) l ne ns s2
      by (simp add: checkForNewProducts_def Let_def stamp_Nil_iff)
  qed
qed

lemma checkForNewProducts_error:
  assumes "loadCache s = Inl e"
  shows "checkForNewProducts cfg w s = (Inl e, s)"
  using assms by (simp add: checkForNewProducts_def fetchProducts_def fetchProducts_try_def
      loadCache_def split: page_result.splits option.splits cache_content.splits)

section \<open>Loading the store\<close>

text \<open>
  C7. When the cache file does not exist, \<open>loadCache\<close> returns the empty array and raises
  no error.
\<close>

theorem loadCache_missing_file:
  "cache_file s = None \<Longrightarrow> loadCache s = Inr []"
  by (simp add: loadCache_def)

theorem loadCache_missing_file_witness:
  "cache_file \<lparr>cache_file = None, events = []\<rparr> = None
   \<and> loadCache \<lparr>cache_file = None, events = []\<rparr> = Inr []"
  using loadCache_missing_file [of "\<lparr>cache_file = None, events = []\<rparr>"] by simp

section \<open>The diff\<close>

text \<open>
  C4. A current record is classified as new exactly when no known record has the same
  name, names being compared as they are; the result keeps the order of the current
  sequence. The filter is a function of its two arguments and changes neither.
\<close>

theorem newProducts_exact_names:
  "newProducts current known = filter (\<lambda>p. \<forall>k\<in>set known. name k \<noteq> name p) current
   \<and> (\<forall>p. p \<in> set (newProducts current known)
          \<longleftrightarrow> p \<in> set current \<and> (\<forall>k\<in>set known. name k \<noteq> name p))
   \<and> subseq (newProducts current known) current"
proof -
  have eq: "newProducts current known = filter (\<lambda>p. \<forall>k\<in>set known. name k \<noteq> name p) current"
    by (simp add: newProducts_def list_ex_iff)
  have "subseq (filter (\<lambda>p. \<forall>k\<in>set known. name k \<noteq> name p) current) current"
    by (rule subseq_filter_left)
  with eq show ?thesis by auto
qed

theorem newProducts_exact_names_witness:
  "newProducts [pigeon, pigeon\<lparr>name := ''pigeon 2.0''\<rparr>, pigeon\<lparr>name := ''Pigeon 2.0 ''\<rparr>, old_kraken]
     [old_kraken, pigeon]
   = [pigeon\<lparr>name := ''pigeon 2.0''\<rparr>, pigeon\<lparr>name := ''Pigeon 2.0 ''\<rparr>]"
proof -
  have "filter (\<lambda>p. \<forall>k\<in>set [old_kraken, pigeon]. name k \<noteq> name p)
          [pigeon, pigeon\<lparr>name := ''pigeon 2.0''\<rparr>, pigeon\<lparr>name := ''Pigeon 2.0 ''\<rparr>, old_kraken]
        = [pigeon\<lparr>name := ''pigeon 2.0''\<rparr>, pigeon\<lparr>name := ''Pigeon 2.0 ''\<rparr>]"
    by (simp add: pigeon_def old_kraken_def)
  then show ?thesis
    using newProducts_exact_names
      [of "[pigeon, pigeon\<lparr>name := ''pigeon 2.0''\<rparr>, pigeon\<lparr>name := ''Pigeon 2.0 ''\<rparr>, old_kraken]"
          "[old_kraken, pigeon]"]
    by simp
qed

section \<open>Cycles that change nothing\<close>

text \<open>
  C10. When the filter classifies no product as new, the cycle ends in the state
  \<open>fetchProducts\<close> left: \<open>saveCache\<close> is not called, so the cache file is the one the cycle
  started with and no write of it is logged.
\<close>

theorem no_new_products_no_save:
  assumes "fetchProducts w s = (cur, s1)"
      and "loadCache s = Inr cached"
      and "newProducts cur cached = []"
  shows "snd (checkForNewProducts cfg w s) = s1
         \<and> cache_file (snd (checkForNewProducts cfg w s)) = cache_file s
         \<and> \<not> list_ex is_CacheWrite (emitted s (snd (checkForNewProducts cfg w s)))"
proof -
  have s1: "snd (checkForNewProducts cfg w s) = s1"
    using checkForNewProducts_unfold [OF assms(1,2), of cfg] assms(3)
    by (auto simp: newProducts_empty_known)
  from fetchProducts_only_downloads [OF assms(1)] obtain ds where
    c: "cache_file s1 = cache_file s" and e: "events s1 = events s @ ds"
    and d: "list_all is_download ds"
    by (auto simp: only_downloads_def)
  have "emitted s s1 = ds"
    using e by (rule emitted_append)
  with d have "\<not> list_ex is_CacheWrite (emitted s s1)"
    by (simp add: downloads_no_CacheWrite)
  with s1 c show ?thesis by simp
qed

theorem no_new_products_no_save_witness:
  "fetchProducts (world_of [kraken]) (store_of [product_of kraken ''aa'' None])
     = ([product_of kraken ''aa'' None], store_of [product_of kraken ''aa'' None])
   \<and> newProducts [product_of kraken ''aa'' None] [product_of kraken ''aa'' None] = []
   \<and> snd (checkForNewProducts slack_off (world_of [kraken]) (store_of [product_of kraken ''aa'' None]))
     = store_of [product_of kraken ''aa'' None]"
proof -
  have f: "fetchProducts (world_of [kraken]) (store_of [product_of kraken ''aa'' None])
     = ([product_of kraken ''aa'' None], store_of [product_of kraken ''aa'' None])"
    by code_simp
  have l: "loadCache (store_of [product_of kraken ''aa'' None]) = Inr [product_of kraken ''aa'' None]"
    by code_simp
  have n: "newProducts [product_of kraken ''aa'' None] [product_of kraken ''aa'' None] = []"
    by code_simp
  show ?thesis
    using f n no_new_products_no_save [OF f l n, of slack_off] by simp
qed

text \<open>
  C9. When the listing page cannot be fetched or its status is not ok, \<open>fetchProducts\<close>
  returns the empty array without any effect, the cycle ends in the state it started
  from (no download, no notification, no write of the cache), and the remaining cycles
  of the schedule run as if this one had not happened.
\<close>

theorem listing_failure_changes_nothing:
  assumes "page w = Rejected \<or> page w = NotOk"
  shows "fetchProducts w s = ([], s)
         \<and> snd (checkForNewProducts cfg w s) = s
         \<and> run_cycles cfg (w # ws) s = run_cycles cfg ws s"
proof -
  have f: "fetchProducts w s = ([], s)"
    using assms by (auto simp: fetchProducts_def fetchProducts_try_def)
  have c: "snd (checkForNewProducts cfg w s) = s"
  proof (cases "loadCache s")
    case (Inl e)
    then show ?thesis by (simp add: checkForNewProducts_error)
  next
    case (Inr cached)
    show ?thesis
      using checkForNewProducts_unfold [OF f Inr, of cfg] by (simp add: newProducts_Nil)
  qed
  from f c show ?thesis by simp
qed

theorem listing_failure_changes_nothing_witness:
  "page ((world_of [talon])\<lparr>page := NotOk\<rparr>) = NotOk
   \<and> snd (checkForNewProducts slack_off ((world_of [talon])\<lparr>page := NotOk\<rparr>) (store_of [pigeon]))
       = store_of [pigeon]
   \<and> run_cycles slack_off [(world_of [talon])\<lparr>page := NotOk\<rparr>, world_of [talon]] (store_of [pigeon])
       = run_cycles slack_off [world_of [talon]] (store_of [pigeon])"
proof -
  have h: "page ((world_of [talon])\<lparr>page := NotOk\<rparr>) = Rejected
           \<or> page ((world_of [talon])\<lparr>page := NotOk\<rparr>) = NotOk"
    by simp
  show ?thesis
    using listing_failure_changes_nothing
      [OF h, of "store_of [pigeon]" slack_off "[world_of [talon]]"]
    by simp
qed

section \<open>First run and later runs\<close>

text \<open>
  C2. When the store loaded by the cycle is empty, the cycle persists every product that
  \<open>fetchProducts\<close> returned and notifies none; when it is not empty, the products notified
  are exactly the records classified as new, each once, in order, each stamped with the
  time read at its turn.
\<close>

theorem first_run_suppression:
  assumes "fetchProducts w s = (cur, s1)"
  shows "(loadCache s = Inr [] \<longrightarrow>
            loadCache (snd (checkForNewProducts cfg w s)) = Inr cur
            \<and> notified (emitted s (snd (checkForNewProducts cfg w s))) = []
            \<and> \<not> list_ex is_notification (emitted s (snd (checkForNewProducts cfg w s))))
         \<and> (loadCache s = Inr cached \<and> cached \<noteq> [] \<longrightarrow>
            notified (emitted s (snd (checkForNewProducts cfg w s)))
              = stamp w 0 (newProducts cur cached)
            \<and> length (notified (emitted s (snd (checkForNewProducts cfg w s))))
              = length (newProducts cur cached))"
proof -
  from fetchProducts_only_downloads [OF assms] obtain ds where
    c1: "cache_file s1 = cache_file s" and e1: "events s1 = events s @ ds"
    and d: "list_all is_download ds"
    by (auto simp: only_downloads_def)
  have nd: "notified ds = []"
    using d by (rule notified_downloads)
  have nn: "\<not> list_ex is_notification ds"
    using d by (induction ds) (auto elim: is_download.elims)
  have first: "loadCache (snd (checkForNewProducts cfg w s)) = Inr cur
      \<and> notified (emitted s (snd (checkForNewProducts cfg w s))) = []
      \<and> \<not> list_ex is_notification (emitted s (snd (checkForNewProducts cfg w s)))"
    if l: "loadCache s = Inr []"
  proof (cases "cur = []")
    case True
    have "snd (checkForNewProducts cfg w s) = s1"
      using checkForNewProducts_unfold [OF assms l, of cfg] True by simp
    moreover have "loadCache s1 = Inr []"
      using l c1 by (simp add: loadCache_def)
    moreover have "emitted s s1 = ds"
      using e1 by (rule emitted_append)
    ultimately show ?thesis
      using True nd nn by simp
  next
    case False
    have s': "snd (checkForNewProducts cfg w s) = saveCache cur s1"
      using checkForNewProducts_unfold [OF assms l, of cfg] False by simp
    have "events (saveCache cur s1) = events s @ (ds @ [CacheWrite cur])"
      using e1 by (simp add: saveCache_def)
    then have "emitted s (saveCache cur s1) = ds @ [CacheWrite cur]"
      by (rule emitted_append)
    moreover have "loadCache (saveCache cur s1) = Inr cur"
      by (simp add: saveCache_def loadCache_def)
    ultimately show ?thesis
      using s' nd nn by (simp add: notified_append)
  qed
  have later: "notified (emitted s (snd (checkForNewProducts cfg w s)))
      = stamp w 0 (newProducts cur cached)"
    if l: "loadCache s = Inr cached" and ne: "cached \<noteq> []"
  proof (cases "newProducts cur cached = []")
    case True
    have "snd (checkForNewProducts cfg w s) = s1"
      using checkForNewProducts_unfold [OF assms l, of cfg] True ne by simp
    moreover have "emitted s s1 = ds"
      using e1 by (rule emitted_append)
    ultimately show ?thesis
      using True nd by simp
  next
    case False
    define s2 where "s2 = snd (notify_each cfg w 0 (newProducts cur cached) s1)"
    from notify_each_frame [of cfg w 0 "newProducts cur cached" s1] obtain ns where
      e2: "events s2 = events s1 @ ns" and n: "notified ns = stamp w 0 (newProducts cur cached)"
      unfolding s2_def by blast
    have s': "snd (checkForNewProducts cfg w s)
        = saveCache (cached @ stamp w 0 (newProducts cur cached)) s2"
      using checkForNewProducts_unfold [OF assms l, of cfg] False ne by (simp add: s2_def)
    have "events (saveCache (cached @ stamp w 0 (newProducts cur cached)) s2)
        = events s @ (ds @ ns @ [CacheWrite (cached @ stamp w 0 (newProducts cur cached))])"
      using e1 e2 by (simp add: saveCache_def)
    then have "emitted s (saveCache (cached @ stamp w 0 (newProducts cur cached)) s2)
        = ds @ ns @ [CacheWrite (cached @ stamp w 0 (newProducts cur cached))]"
      by (rule emitted_append)
    then show ?thesis
      using s' nd n by (simp add: notified_append)
  qed
  show ?thesis
    using first later by (simp add: stamp_length)
qed

theorem first_run_suppression_witness:
  "loadCache no_store = Inr []
   \<and> loadCache (snd (checkForNewProducts slack_off (world_of [kraken, talon]) no_store))
       = Inr (fst (fetchProducts (world_of [kraken, talon]) no_store))
   \<and> length (fst (fetchProducts (world_of [kraken, talon]) no_store)) = 2
   \<and> notified (emitted no_store (snd (checkForNewProducts slack_off (world_of [kraken, talon]) no_store))) = []
   \<and> loadCache (store_of [pigeon]) = Inr [pigeon] \<and> [pigeon] \<noteq> []
   \<and> notified (emitted (store_of [pigeon])
        (snd (checkForNewProducts slack_off (world_of [kraken, talon]) (store_of [pigeon]))))
       = [product_of kraken ''00000000000000000000000000000001'' (Some ''2024-05-01T12:00:00.000Z''),
          product_of talon ''00000000000000000000000000000002'' (Some ''2024-05-01T12:00:00.000Z'')]"
proof -
  obtain cur s1 where f: "fetchProducts (world_of [kraken, talon]) no_store = (cur, s1)"
    by (cases "fetchProducts (world_of [kraken, talon]) no_store")
  have l: "loadCache no_store = Inr []"
    by code_simp
  have len: "length (fst (fetchProducts (world_of [kraken, talon]) no_store)) = 2"
    by code_simp
  obtain cur' s1' where f': "fetchProducts (world_of [kraken, talon]) (store_of [pigeon]) = (cur', s1')"
    by (cases "fetchProducts (world_of [kraken, talon]) (store_of [pigeon])")
  have l': "loadCache (store_of [pigeon]) = Inr [pigeon]"
    by code_simp
  have st: "stamp (world_of [kraken, talon]) 0
             (newProducts (fst (fetchProducts (world_of [kraken, talon]) (store_of [pigeon]))) [pigeon])
       = [product_of kraken ''00000000000000000000000000000001'' (Some ''2024-05-01T12:00:00.000Z''),
          product_of talon ''00000000000000000000000000000002'' (Some ''2024-05-01T12:00:00.000Z'')]"
    by code_simp
  show ?thesis
    using first_run_suppression [OF f, where cfg = slack_off and cached = "[]"]
      first_run_suppression [OF f', where cfg = slack_off and cached = "[pigeon]"] l l' len st f f'
    by simp
qed

section \<open>Order of notifying and saving\<close>

lemma before_saveCache_unfold:
  assumes "fetchProducts w s = (cur, s1)" and "loadCache s = Inr cached" and "cached \<noteq> []"
  shows "before_saveCache cfg w s = snd (notify_each cfg w 0 (newProducts cur cached) s1)"
proof -
  have "loadCache s1 = Inr cached"
    using assms(1,2) fetchProducts_only_downloads only_downloads_loadCache by metis
  then show ?thesis
    using assms(1,3) by (simp add: before_saveCache_def)
qed

text \<open>
  C1, as the code has it. In a cycle that finds new products with a non-empty store, all
  notifications are emitted first, while the cache file still holds the old store; the
  write of the cache (the old records followed by the stamped new ones) is the last
  effect of the cycle.
\<close>

theorem notified_before_persisted:
  assumes "fetchProducts w s = (cur, s1)"
      and "loadCache s = Inr cached"
      and "cached \<noteq> []"
      and "newProducts cur cached \<noteq> []"
  shows "snd (checkForNewProducts cfg w s)
           = saveCache (cached @ stamp w 0 (newProducts cur cached)) (before_saveCache cfg w s)
         \<and> notified (emitted s (before_saveCache cfg w s)) = stamp w 0 (newProducts cur cached)
         \<and> \<not> list_ex is_CacheWrite (emitted s (before_saveCache cfg w s))
         \<and> loadCache (before_saveCache cfg w s) = Inr cached
         \<and> emitted (before_saveCache cfg w s) (snd (checkForNewProducts cfg w s))
           = [CacheWrite (cached @ stamp w 0 (newProducts cur cached))]"
proof -
  define new where "new = newProducts cur cached"
  define s2 where "s2 = snd (notify_each cfg w 0 new s1)"
  have b: "before_saveCache cfg w s = s2"
    using before_saveCache_unfold [OF assms(1,2,3), of cfg] by (simp add: s2_def new_def)
  from fetchProducts_only_downloads [OF assms(1)] obtain ds where
    c1: "cache_file s1 = cache_file s" and e1: "events s1 = events s @ ds"
    and d: "list_all is_download ds"
    by (auto simp: only_downloads_def)
  from notify_each_frame [of cfg w 0 new s1] obtain ns where
    c2: "cache_file s2 = cache_file s1" and e2: "events s2 = events s1 @ ns"
    and n: "notified ns = stamp w 0 new" "\<not> list_ex is_CacheWrite ns"
    unfolding s2_def by blast
  have s3: "snd (checkForNewProducts cfg w s) = saveCache (cached @ stamp w 0 new) s2"
    using checkForNewProducts_unfold [OF assms(1,2), of cfg] assms(3,4)
    by (simp add: s2_def new_def)
  have "events s2 = events s @ (ds @ ns)"
    using e1 e2 by simp
  then have em: "emitted s s2 = ds @ ns"
    by (rule emitted_append)
  have n2: "notified (emitted s s2) = stamp w 0 new"
    using em n(1) d by (simp add: notified_append notified_downloads)
  have w2: "\<not> list_ex is_CacheWrite (emitted s s2)"
    using em n(2) downloads_no_CacheWrite [OF d] by simp
  have l2: "loadCache s2 = Inr cached"
    using assms(2) c1 c2 by (simp add: loadCache_def)
  have "events (saveCache (cached @ stamp w 0 new) s2)
      = events s2 @ [CacheWrite (cached @ stamp w 0 new)]"
    by (simp add: saveCache_def)
  then have last: "emitted s2 (saveCache (cached @ stamp w 0 new) s2)
      = [CacheWrite (cached @ stamp w 0 new)]"
    by (rule emitted_append)
  show ?thesis
    using b s3 n2 w2 l2 last by (simp add: new_def)
qed

theorem notified_before_persisted_witness:
  "loadCache (store_of [pigeon]) = Inr [pigeon] \<and> [pigeon] \<noteq> []
   \<and> newProducts (fst (fetchProducts (world_of [talon]) (store_of [pigeon]))) [pigeon] \<noteq> []
   \<and> notified (emitted (store_of [pigeon]) (before_saveCache slack_off (world_of [talon]) (store_of [pigeon])))
       = [product_of talon ''00000000000000000000000000000001'' (Some ''2024-05-01T12:00:00.000Z'')]
   \<and> loadCache (before_saveCache slack_off (world_of [talon]) (store_of [pigeon])) = Inr [pigeon]
   \<and> emitted (before_saveCache slack_off (world_of [talon]) (store_of [pigeon]))
        (snd (checkForNewProducts slack_off (world_of [talon]) (store_of [pigeon])))
       = [CacheWrite [pigeon,
            product_of talon ''00000000000000000000000000000001'' (Some ''2024-05-01T12:00:00.000Z'')]]"
proof -
  obtain cur s1 where f: "fetchProducts (world_of [talon]) (store_of [pigeon]) = (cur, s1)"
    by (cases "fetchProducts (world_of [talon]) (store_of [pigeon])")
  have l: "loadCache (store_of [pigeon]) = Inr [pigeon]"
    by code_simp
  have ne: "[pigeon] \<noteq> []"
    by simp
  have new: "newProducts (fst (fetchProducts (world_of [talon]) (store_of [pigeon]))) [pigeon] \<noteq> []"
    by code_simp
  then have new': "newProducts cur [pigeon] \<noteq> []"
    using f by simp
  have st: "stamp (world_of [talon]) 0
      (newProducts (fst (fetchProducts (world_of [talon]) (store_of [pigeon]))) [pigeon])
      = [product_of talon ''00000000000000000000000000000001'' (Some ''2024-05-01T12:00:00.000Z'')]"
    by code_simp
  then have st': "stamp (world_of [talon]) 0 (newProducts cur [pigeon])
      = [product_of talon ''00000000000000000000000000000001'' (Some ''2024-05-01T12:00:00.000Z'')]"
    using f by simp
  show ?thesis
    using notified_before_persisted [OF f l ne new', of slack_off, unfolded st' append_Cons append_Nil] l ne new
    by blast
qed

text \<open>
  The order as stated, persisting before notifying, fails: with the store holding one
  record and one new product listed, the notification is logged before the write of the
  cache, and from the state between the two the next cycle notifies the product again.
\<close>

theorem persist_before_notify_counterexample:
  "emitted (store_of [pigeon])
       (snd (checkForNewProducts slack_off (world_of [talon]) (store_of [pigeon])))
     = [ImageFetch ''TalonFXS'' ''https://wcproducts.com/cdn/shop/files/TalonFXS_145x.png'',
        ImageWrite ''00000000000000000000000000000001''
          ''https://wcproducts.com/cdn/shop/files/TalonFXS_145x.png'',
        NewProductDetected (product_of talon ''00000000000000000000000000000001''
          (Some ''2024-05-01T12:00:00.000Z'')),
        CacheWrite [pigeon, product_of talon ''00000000000000000000000000000001''
          (Some ''2024-05-01T12:00:00.000Z'')]]
   \<and> \<not> persisted_before_notified [pigeon] (emitted (store_of [pigeon])
        (snd (checkForNewProducts slack_off (world_of [talon]) (store_of [pigeon]))))
   \<and> map name (notified (emitted (before_saveCache slack_off (world_of [talon]) (store_of [pigeon]))
        (snd (checkForNewProducts slack_off (world_of [talon])
               (before_saveCache slack_off (world_of [talon]) (store_of [pigeon]))))))
     = [''TalonFXS'']"
  by code_simp

section \<open>Delivery to Slack\<close>

lemma sendToSlack_disabled:
  "slack cfg = Some sl \<Longrightarrow> enableBot sl = Some False \<Longrightarrow>
     sendToSlack cfg n pr link img s = (Inr (), s)"
  by (simp add: sendToSlack_def)

lemma sendToSlack_missing_fields:
  "emitted no_store (snd (sendToSlack \<lparr>slack = Some \<lparr>enableBot = None, token = None, channelName = None\<rparr>\<rparr>
      ''TalonFXS'' ''$100'' ''https://wcproducts.com/products/talonfxs'' None no_store))
    = [SlackPost \<lparr>msg_token = None, msg_channel = None, msg_name = ''TalonFXS'', msg_price = ''$100'',
         msg_link = ''https://wcproducts.com/products/talonfxs'', msg_image = None\<rparr>]"
  by code_simp

text \<open>
  C8, at the input where the code departs from it: with no \<open>slack\<close> object in the
  configuration the flag test passes (\<open>undefined === false\<close> is false) and the read of
  \<open>config.slack.token\<close> throws.
\<close>

theorem sendToSlack_without_slack_object:
  "sendToSlack no_slack ''TalonFXS'' ''$100'' ''https://wcproducts.com/products/talonfxs''
     (Some ''https://wcproducts.com/cdn/shop/files/TalonFXS_145x.png'') no_store
   = (Inl TypeError, no_store)"
  by (simp add: sendToSlack_def no_slack_def)

section \<open>A failing image download\<close>

lemma downloadImage_fails:
  "image_response w i \<noteq> Stored \<Longrightarrow> \<exists>e. fst (downloadImage w i n url s) = Inl e"
  by (cases "image_response w i") (simp_all add: downloadImage_def Let_def)

lemma fetch_loop_fails:
  assumes "k < length els"
      and "els ! k = Element n pg url pr"
      and "stored_imageId c n = None"
      and "image_response w (i + k) \<noteq> Stored"
  shows "\<exists>e. fst (fetch_loop w c els i acc s) = Inl e"
  using assms
proof (induction els arbitrary: i acc s k)
  case Nil
  then show ?case by simp
next
  case (Cons el els)
  show ?case
  proof (cases el)
    case NoMatch
    then show ?thesis by simp
  next
    case (Element m pg' url' pr')
    obtain r1 s1 where res: "resolveImage w c i m url' s = (r1, s1)"
      by (cases "resolveImage w c i m url' s")
    show ?thesis
    proof (cases r1)
      case (Inl e)
      with res Element show ?thesis by simp
    next
      case (Inr iid)
      show ?thesis
      proof (cases k)
        case 0
        with Cons.prems Element have "m = n" and "image_response w i \<noteq> Stored"
          by simp_all
        with Cons.prems(3) downloadImage_fails [of w i n url' s] res Inr
        show ?thesis
          by (auto simp: resolveImage_stored)
      next
        case (Suc k')
        with Cons.prems have "k' < length els" "els ! k' = Element n pg url pr"
          "image_response w (Suc i + k') \<noteq> Stored"
          by simp_all
        from Cons.IH [OF this(1,2) Cons.prems(3) this(3)]
        show ?thesis
          using res Inr Element by simp
      qed
    qed
  qed
qed

text \<open>
  C3, as the code has it. When the image download fails for one product of the listing,
  the error is caught by the one \<open>try\<close> of \<open>fetchProducts\<close>, which returns the empty array:
  no product of the listing is notified or persisted in this cycle, the cache file is
  unchanged, and so the failed product is still absent from the store.
\<close>

theorem image_failure_empties_cycle:
  assumes "page w = Page els"
      and "loadCache s = Inr cached"
      and "k < length els"
      and "els ! k = Element n pg url pr"
      and "stored_imageId cached n = None"
      and "image_response w k \<noteq> Stored"
  shows "fst (fetchProducts w s) = []
         \<and> notified (emitted s (snd (checkForNewProducts cfg w s))) = []
         \<and> \<not> list_ex is_CacheWrite (emitted s (snd (checkForNewProducts cfg w s)))
         \<and> cache_file (snd (checkForNewProducts cfg w s)) = cache_file s"
proof -
  from fetch_loop_fails [OF assms(3,4,5), of w 0 "[]" s] assms(6)
  obtain e where "fst (fetch_loop w cached els 0 [] s) = Inl e"
    by auto
  then obtain s0 where "fetch_loop w cached els 0 [] s = (Inl e, s0)"
    by (cases "fetch_loop w cached els 0 [] s") simp
  then have f: "fst (fetchProducts w s) = []"
    using assms(1,2) by (simp add: fetchProducts_def fetchProducts_try_def)
  obtain s1 where f': "fetchProducts w s = ([], s1)"
    using f by (cases "fetchProducts w s") simp
  have s1: "snd (checkForNewProducts cfg w s) = s1"
    using checkForNewProducts_unfold [OF f' assms(2), of cfg] by (simp add: newProducts_Nil)
  from fetchProducts_only_downloads [OF f'] obtain ds where
    c: "cache_file s1 = cache_file s" and e: "events s1 = events s @ ds"
    and d: "list_all is_download ds"
    by (auto simp: only_downloads_def)
  have "emitted s s1 = ds"
    using e by (rule emitted_append)
  then show ?thesis
    using f s1 c d by (simp add: notified_downloads downloads_no_CacheWrite)
qed

theorem image_failure_empties_cycle_witness:
  "page third_image_fails = Page [kraken, cancoder, talon]
   \<and> loadCache (store_of [pigeon]) = Inr [pigeon]
   \<and> [kraken, cancoder, talon] ! 2 = talon
   \<and> stored_imageId [pigeon] ''TalonFXS'' = None
   \<and> image_response third_image_fails 2 \<noteq> Stored
   \<and> fst (fetchProducts third_image_fails (store_of [pigeon])) = []
   \<and> cache_file (snd (checkForNewProducts slack_off third_image_fails (store_of [pigeon])))
       = cache_file (store_of [pigeon])"
proof -
  have p: "page third_image_fails = Page [kraken, cancoder, talon]"
    by (simp add: third_image_fails_def world_of_def)
  have l: "loadCache (store_of [pigeon]) = Inr [pigeon]"
    by code_simp
  have k: "2 < length [kraken, cancoder, talon]"
    by simp
  have t: "[kraken, cancoder, talon] ! 2 = Element ''TalonFXS'' ''https://wcproducts.com/products/talonfxs''
     ''https://wcproducts.com/cdn/shop/files/TalonFXS_145x.png'' ''$100''"
    by (simp add: talon_def)
  have st: "stored_imageId [pigeon] ''TalonFXS'' = None"
    by code_simp
  have r: "image_response third_image_fails 2 \<noteq> Stored"
    by (simp add: third_image_fails_def world_of_def)
  show ?thesis
    using image_failure_empties_cycle [OF p l k t st r, of slack_off] p l st r
    by (simp add: talon_def)
qed

text \<open>
  Isolation of the failure as stated fails: of three new products the third download is
  rejected; the two images already written stay on disk, but nothing is notified and the
  store is unchanged.
\<close>

theorem failure_isolation_counterexample:
  "fst (fetchProducts third_image_fails (store_of [pigeon])) = []
   \<and> notified (emitted (store_of [pigeon])
        (snd (checkForNewProducts slack_off third_image_fails (store_of [pigeon])))) = []
   \<and> loadCache (snd (checkForNewProducts slack_off third_image_fails (store_of [pigeon])))
       = Inr [pigeon]
   \<and> emitted (store_of [pigeon])
        (snd (checkForNewProducts slack_off third_image_fails (store_of [pigeon])))
     = [ImageFetch ''Kraken X60'' ''https://wcproducts.com/cdn/shop/files/kraken_145x.png'',
        ImageWrite ''00000000000000000000000000000001''
          ''https://wcproducts.com/cdn/shop/files/kraken_145x.png'',
        ImageFetch ''CANcoder'' ''https://wcproducts.com/cdn/shop/files/cancoder_145x.png'',
        ImageWrite ''00000000000000000000000000000002''
          ''https://wcproducts.com/cdn/shop/files/cancoder_145x.png'',
        ImageFetch ''TalonFXS'' ''https://wcproducts.com/cdn/shop/files/TalonFXS_145x.png'']"
  by code_simp

section \<open>Names in the store\<close>

lemma fetch_loop_names:
  "fetch_loop w c els i acc s = (Inr ps, s') \<Longrightarrow> map name ps = map name acc @ names_of els"
proof (induction els arbitrary: i acc s)
  case Nil
  then show ?case by simp
next
  case (Cons el els)
  show ?case
  proof (cases el)
    case NoMatch
    with Cons.prems show ?thesis by simp
  next
    case (Element m pg url pr)
    obtain r1 s1 where res: "resolveImage w c i m url s = (r1, s1)"
      by (cases "resolveImage w c i m url s")
    show ?thesis
    proof (cases r1)
      case (Inl e)
      with res Element Cons.prems show ?thesis by simp
    next
      case (Inr iid)
      with res Element Cons.prems Cons.IH show ?thesis by fastforce
    qed
  qed
qed

lemma fetchProducts_names:
  assumes "fetchProducts w s = (ps, s')"
  shows "ps = [] \<or> map name ps = listing_names w"
proof (cases "page w")
  case (Page els)
  show ?thesis
  proof (cases "loadCache s")
    case (Inl e)
    with Page assms show ?thesis
      by (simp add: fetchProducts_def fetchProducts_try_def)
  next
    case (Inr c)
    obtain r s1 where fl: "fetch_loop w c els 0 [] s = (r, s1)"
      by (cases "fetch_loop w c els 0 [] s")
    show ?thesis
    proof (cases r)
      case (Inl e)
      with fl Page Inr assms show ?thesis
        by (simp add: fetchProducts_def fetchProducts_try_def)
    next
      case (Inr qs)
      with fl Page \<open>loadCache s = Inr c\<close> assms have "qs = ps"
        by (simp add: fetchProducts_def fetchProducts_try_def)
      with fl Inr fetch_loop_names [of w c els 0 "[]" s ps s1] Page show ?thesis
        by (simp add: listing_names_def)
    qed
  qed
qed (use assms in \<open>simp_all add: fetchProducts_def fetchProducts_try_def\<close>)

lemma fetchProducts_distinct:
  "fetchProducts w s = (ps, s') \<Longrightarrow> distinct (listing_names w) \<Longrightarrow> distinct (map name ps)"
  using fetchProducts_names by fastforce

text \<open>The records a cycle appends to the store.\<close>

lemma checkForNewProducts_store:
  assumes "fetchProducts w s = (cur, s1)" and "loadCache s = Inr cached"
  shows "loadCache (snd (checkForNewProducts cfg w s))
     = Inr (cached @ (if cached = [] then cur else stamp w 0 (newProducts cur cached)))"
proof -
  have l1: "loadCache s1 = Inr cached"
    using assms fetchProducts_only_downloads only_downloads_loadCache by metis
  have sv: "\<And>ps t. loadCache (saveCache ps t) = Inr ps"
    by (simp add: saveCache_def loadCache_def)
  show ?thesis
    using checkForNewProducts_unfold [OF assms, of cfg] l1 sv
    by (simp add: stamp_Nil_iff)
qed

lemma newProducts_names_distinct:
  assumes "distinct (map name cached)" and "distinct (map name cur)"
  shows "distinct (map name (cached @ newProducts cur cached))"
proof -
  have "distinct (map name (newProducts cur cached))"
    using assms(2) by (simp add: newProducts_filter distinct_map_filter)
  moreover have "set (map name cached) \<inter> set (map name (newProducts cur cached)) = {}"
    by (auto simp: newProducts_filter image_iff)
  ultimately show ?thesis
    using assms(1) by simp
qed

lemma cycle_keeps_names_distinct:
  assumes "loadCache s = Inr cached" and "distinct (map name cached)"
      and "distinct (listing_names w)"
  shows "\<exists>ps. loadCache (snd (checkForNewProducts cfg w s)) = Inr ps \<and> distinct (map name ps)"
proof -
  obtain cur s1 where f: "fetchProducts w s = (cur, s1)"
    by (cases "fetchProducts w s")
  have dc: "distinct (map name cur)"
    using f assms(3) by (rule fetchProducts_distinct)
  have eq: "map name (cached @ (if cached = [] then cur else stamp w 0 (newProducts cur cached)))
      = map name (cached @ newProducts cur cached)"
    by (simp add: stamp_names newProducts_empty_known)
  have "distinct (map name (cached @ (if cached = [] then cur else stamp w 0 (newProducts cur cached))))"
    unfolding eq by (rule newProducts_names_distinct [OF assms(2) dc])
  then show ?thesis
    using checkForNewProducts_store [OF f assms(1), of cfg] by simp
qed

lemma run_cycles_names_distinct:
  assumes "loadCache s = Inr cached" and "distinct (map name cached)"
      and "\<forall>w\<in>set ws. distinct (listing_names w)"
  shows "\<exists>ps. loadCache (run_cycles cfg ws s) = Inr ps \<and> distinct (map name ps)"
  using assms
proof (induction ws arbitrary: s cached)
  case Nil
  then show ?case by simp
next
  case (Cons w ws)
  from cycle_keeps_names_distinct [OF Cons.prems(1,2), of w cfg] Cons.prems(3)
  obtain ps where "loadCache (snd (checkForNewProducts cfg w s)) = Inr ps"
    and "distinct (map name ps)"
    by auto
  from Cons.IH [OF this] Cons.prems(3) show ?case
    by simp
qed

text \<open>
  C5, as the code has it. Starting from the empty store, as long as no listing repeats a
  name, no two records of the store share a name after any number of cycles.
\<close>

theorem store_names_distinct:
  assumes "loadCache s = Inr []"
      and "\<forall>w\<in>set ws. distinct (listing_names w)"
  shows "\<exists>ps. loadCache (run_cycles cfg ws s) = Inr ps \<and> distinct (map name ps)"
  using run_cycles_names_distinct [OF assms(1) _ assms(2)] by simp

theorem store_names_distinct_witness:
  "loadCache no_store = Inr []
   \<and> distinct (listing_names (world_of [kraken, talon]))
   \<and> distinct (listing_names (world_of [talon, cancoder]))
   \<and> (\<exists>ps. loadCache (run_cycles slack_off [world_of [kraken, talon], world_of [talon, cancoder]] no_store)
              = Inr ps \<and> distinct (map name ps))"
proof -
  have l: "loadCache no_store = Inr []"
    by code_simp
  have d1: "distinct (listing_names (world_of [kraken, talon]))"
    by code_simp
  have d2: "distinct (listing_names (world_of [talon, cancoder]))"
    by code_simp
  have "\<forall>w\<in>set [world_of [kraken, talon], world_of [talon, cancoder]]. distinct (listing_names w)"
    using d1 d2 by simp
  from store_names_distinct [OF l this, of slack_off] l d1 d2 show ?thesis
    by blast
qed

text \<open>
  With a name listed twice the invariant fails: the first cycle on the empty store
  persists both records.
\<close>

theorem repeated_name_counterexample:
  "loadCache (run_cycles slack_off [world_of [kraken, kraken]] no_store)
     = Inr [product_of kraken ''00000000000000000000000000000001'' None,
            product_of kraken ''00000000000000000000000000000002'' None]
   \<and> name (product_of kraken ''00000000000000000000000000000001'' None)
     = name (product_of kraken ''00000000000000000000000000000002'' None)
   \<and> \<not> distinct (map name [product_of kraken ''00000000000000000000000000000001'' None,
            product_of kraken ''00000000000000000000000000000002'' None])"
  by code_simp

section \<open>Stability of image identifiers\<close>

lemma to_hex_nonempty: "to_hex x \<noteq> []"
  by (simp add: to_hex_def)

lemma count_list_distinct: "distinct xs \<Longrightarrow> count_list xs x \<le> 1"
  by (induction xs) (auto simp: count_list_0_iff)

lemma image_fetches_notifications: "list_all is_notification ns \<Longrightarrow> image_fetches n ns = 0"
  by (induction n ns rule: image_fetches.induct) auto

text \<open>What one resolution adds to the log and which identifier it returns.\<close>

lemma resolveImage_effect:
  assumes "resolveImage w c i m url s = (r, s')"
  shows "\<exists>ds. events s' = events s @ ds
           \<and> image_fetches n ds = (if stored_imageId c m = None \<and> m = n then 1 else 0)
           \<and> (\<forall>v. r = Inr v \<longrightarrow> v \<noteq> [] \<and> (stored_imageId c m \<noteq> None \<longrightarrow> stored_imageId c m = Some v))"
proof (cases "stored_imageId c m")
  case None
  with assms have d: "downloadImage w i m url s = (r, s')"
    by (simp add: resolveImage_stored)
  show ?thesis
  proof (cases "image_response w i")
    case Stored
    with d have "events s' = events s @ [ImageFetch m url, ImageWrite (to_hex (randomBytes w i)) url]"
      and "r = Inr (to_hex (randomBytes w i))"
      by (auto simp: downloadImage_def Let_def)
    with None show ?thesis
      by (simp add: to_hex_nonempty)
  next
    case FetchFails
    with d have "events s' = events s @ [ImageFetch m url]" and "r = Inl NetworkError"
      by (auto simp: downloadImage_def Let_def)
    with None show ?thesis by simp
  next
    case WriteFails
    with d have "events s' = events s @ [ImageFetch m url]" and "r = Inl WriteError"
      by (auto simp: downloadImage_def Let_def)
    with None show ?thesis by simp
  qed
next
  case (Some v)
  then have "v \<noteq> []"
    by (auto simp: stored_imageId_def split: option.splits if_splits)
  with Some assms show ?thesis
    by (auto simp: resolveImage_stored)
qed

text \<open>
  The loop: downloads for \<open>n\<close> happen only when the store has no identifier for it, once
  per occurrence of \<open>n\<close> in the listing; every record built carries a non-empty
  identifier, the stored one when there is one.
\<close>

lemma fetch_loop_effect:
  assumes "fetch_loop w c els i acc s = (r, s')"
  shows "\<exists>ds. events s' = events s @ ds
           \<and> image_fetches n ds \<le> (if stored_imageId c n = None then count_list (names_of els) n else 0)
           \<and> (\<forall>ps. r = Inr ps \<longrightarrow> (\<forall>q\<in>set ps. q \<in> set acc \<or>
                 carries_id c q))"
  using assms
proof (induction els arbitrary: i acc s)
  case Nil
  then show ?case by auto
next
  case (Cons el els)
  show ?case
  proof (cases el)
    case NoMatch
    with Cons.prems show ?thesis by auto
  next
    case (Element m pg url pr)
    obtain r1 s1 where res: "resolveImage w c i m url s = (r1, s1)"
      by (cases "resolveImage w c i m url s")
    from resolveImage_effect [OF res, of n] obtain ds1 where
      e1: "events s1 = events s @ ds1" and
      f1: "image_fetches n ds1 = (if stored_imageId c m = None \<and> m = n then 1 else 0)" and
      v1: "\<forall>v. r1 = Inr v \<longrightarrow> v \<noteq> [] \<and> (stored_imageId c m \<noteq> None \<longrightarrow> stored_imageId c m = Some v)"
      by blast
    have bound1: "image_fetches n ds1
        \<le> (if stored_imageId c n = None then count_list (names_of (el # els)) n else 0)"
      using f1 Element by auto
    show ?thesis
    proof (cases r1)
      case (Inl e)
      with res Element Cons.prems have "s' = s1" and "r = Inl e"
        by simp_all
      with e1 bound1 show ?thesis by auto
    next
      case (Inr iid)
      define rec where "rec = \<lparr>name = m, productPage = pg, imageId = Some iid,
         imageUrl = Some url, price = pr, cachedTime = None\<rparr>"
      have loop: "fetch_loop w c els (Suc i) (acc @ [rec]) s1 = (r, s')"
        using res Inr Element Cons.prems by (simp add: rec_def)
      from Cons.IH [OF loop] obtain ds2 where
        e2: "events s' = events s1 @ ds2" and
        f2: "image_fetches n ds2
             \<le> (if stored_imageId c n = None then count_list (names_of els) n else 0)" and
        v2: "\<forall>ps. r = Inr ps \<longrightarrow> (\<forall>q\<in>set ps. q \<in> set (acc @ [rec]) \<or>
                 carries_id c q)"
        by blast
      have recok: "carries_id c rec"
        using v1 Inr by (auto simp: rec_def carries_id_def split: option.splits)
      have ev: "events s' = events s @ (ds1 @ ds2)"
        using e1 e2 by simp
      have cnt: "image_fetches n (ds1 @ ds2)
          \<le> (if stored_imageId c n = None then count_list (names_of (el # els)) n else 0)"
        using f1 f2 Element by (auto simp: image_fetches_append)
      have recs: "\<forall>ps. r = Inr ps \<longrightarrow> (\<forall>q\<in>set ps. q \<in> set acc \<or>
                 carries_id c q)"
        using v2 recok by auto
      from ev cnt recs show ?thesis by blast
    qed
  qed
qed

lemma fetchProducts_effect:
  assumes "fetchProducts w s = (ps, s')" and "loadCache s = Inr c"
  shows "\<exists>ds. events s' = events s @ ds
           \<and> image_fetches n ds \<le> (if stored_imageId c n = None then count_list (listing_names w) n else 0)
           \<and> (\<forall>q\<in>set ps. carries_id c q)"
proof (cases "page w")
  case (Page els)
  obtain r s1 where fl: "fetch_loop w c els 0 [] s = (r, s1)"
    by (cases "fetch_loop w c els 0 [] s")
  have s': "s' = s1"
    using fl Page assms by (cases r) (simp_all add: fetchProducts_def fetchProducts_try_def)
  have ps: "r = Inr qs \<Longrightarrow> ps = qs" "r = Inl e \<Longrightarrow> ps = []" for qs e
    using fl Page assms by (simp_all add: fetchProducts_def fetchProducts_try_def)
  from fetch_loop_effect [OF fl, of n] obtain ds where
    "events s1 = events s @ ds" and
    "image_fetches n ds \<le> (if stored_imageId c n = None then count_list (names_of els) n else 0)" and
    "\<forall>qs. r = Inr qs \<longrightarrow> (\<forall>q\<in>set qs. q \<in> set [] \<or>
                 carries_id c q)"
    by blast
  with s' ps Page show ?thesis
    by (cases r) (auto simp: listing_names_def)
next
  case Rejected
  with assms have "ps = []" "s' = s"
    by (simp_all add: fetchProducts_def fetchProducts_try_def)
  then show ?thesis by simp
next
  case NotOk
  with assms have "ps = []" "s' = s"
    by (simp_all add: fetchProducts_def fetchProducts_try_def)
  then show ?thesis by simp
qed

text \<open>After \<open>fetchProducts\<close> the cycle adds no image request.\<close>

lemma checkForNewProducts_effect:
  assumes "fetchProducts w s = (cur, s1)" and "loadCache s = Inr cached"
  shows "\<exists>ns. events (snd (checkForNewProducts cfg w s)) = events s1 @ ns \<and> image_fetches n ns = 0"
proof -
  define new where "new = newProducts cur cached"
  from notify_each_frame [of cfg w 0 new s1] obtain ns where
    e2: "events (snd (notify_each cfg w 0 new s1)) = events s1 @ ns"
    and n: "list_all is_notification ns"
    by blast
  have z: "image_fetches n ns = 0"
    using n by (rule image_fetches_notifications)
  consider "snd (checkForNewProducts cfg w s) = s1"
    | "snd (checkForNewProducts cfg w s) = saveCache cur s1"
    | "snd (checkForNewProducts cfg w s)
         = saveCache (cached @ stamp w 0 new) (snd (notify_each cfg w 0 new s1))"
    using checkForNewProducts_unfold [OF assms, of cfg] unfolding new_def by metis
  then show ?thesis
  proof cases
    case 1
    then show ?thesis by simp
  next
    case 2
    then have "events (snd (checkForNewProducts cfg w s)) = events s1 @ [CacheWrite cur]"
      by (simp add: saveCache_def)
    then show ?thesis by auto
  next
    case 3
    then have "events (snd (checkForNewProducts cfg w s))
        = events s1 @ (ns @ [CacheWrite (cached @ stamp w 0 new)])"
      using e2 by (simp add: saveCache_def)
    moreover have "image_fetches n (ns @ [CacheWrite (cached @ stamp w 0 new)]) = 0"
      using z by (simp add: image_fetches_append)
    ultimately show ?thesis by blast
  qed
qed


text \<open>The lookup in a store that has grown by appended records.\<close>

lemma find_name_append:
  "find P (xs @ ys) = (case find P xs of None \<Rightarrow> find P ys | Some x \<Rightarrow> Some x)"
  by (induction xs) auto

lemma stored_imageId_append_known:
  "n \<in> name ` set c \<Longrightarrow> stored_imageId (c @ x) n = stored_imageId c n"
proof -
  assume "n \<in> name ` set c"
  then have "find (\<lambda>p. name p = n) c \<noteq> None"
    by (auto simp: find_None_iff)
  then show ?thesis
    by (auto simp: stored_imageId_def find_name_append)
qed

lemma stored_imageId_append_unknown:
  "n \<notin> name ` set c \<Longrightarrow> stored_imageId (c @ x) n = stored_imageId x n"
proof -
  assume "n \<notin> name ` set c"
  then have "find (\<lambda>p. name p = n) c = None"
    by (auto simp: find_None_iff)
  then show ?thesis
    by (simp add: stored_imageId_def find_name_append)
qed

lemma stored_imageId_known: "stored_imageId c n = Some v \<Longrightarrow> n \<in> name ` set c"
  by (auto simp: stored_imageId_def find_Some_iff split: option.splits if_splits)

lemma stored_imageId_unique:
  assumes "distinct (map name x)" and "r \<in> set x" and "name r = n"
      and "imageId r = Some v" and "v \<noteq> []"
  shows "stored_imageId x n = Some v"
proof -
  have "find (\<lambda>p. name p = n) x = Some r"
    using assms(1,2,3)
  proof (induction x)
    case Nil
    then show ?case by simp
  next
    case (Cons a x)
    then show ?case by (auto simp: image_iff)
  qed
  then show ?thesis
    using assms(4,5) by (simp add: stored_imageId_def)
qed

lemma stamp_member:
  "p \<in> set ps \<Longrightarrow> \<exists>r\<in>set (stamp w k ps). name r = name p \<and> imageId r = imageId p"
  by (induction ps arbitrary: k) auto

text \<open>
  C6, as the code has it. Take two consecutive cycles and a product name \<open>n\<close> such that
  the store at the first cycle has no record named \<open>n\<close>, or its first record named \<open>n\<close>
  carries a non-empty identifier. Let the \<open>fetchProducts\<close> of the first cycle return a
  record \<open>p\<close> for \<open>n\<close> (so that it completed without error), from a listing without
  repeated names. Then every record that the \<open>fetchProducts\<close> of the second cycle returns
  for \<open>n\<close> carries the identifier of \<open>p\<close>, whatever the second listing and its image URLs
  are, and over both cycles at most one image request is made for \<open>n\<close>: none when the store
  already had the identifier. This holds whether or not the second cycle completes.
\<close>

theorem imageId_stable_across_cycles:
  assumes "loadCache s = Inr cached"
      and "n \<notin> name ` set cached \<or> stored_imageId cached n \<noteq> None"
      and "fetchProducts w1 s = (ps1, s1)"
      and "p \<in> set ps1" and "name p = n"
      and "distinct (listing_names w1)"
      and "fetchProducts w2 (snd (checkForNewProducts cfg w1 s)) = (ps2, s2)"
  shows "(\<forall>q\<in>set ps2. name q = n \<longrightarrow> imageId q = imageId p)
         \<and> image_fetches n (emitted s s2) \<le> (if stored_imageId cached n = None then 1 else 0)
         \<and> image_fetches n (emitted s (run_cycles cfg [w1, w2] s))
             \<le> (if stored_imageId cached n = None then 1 else 0)"
proof -
  define s' where "s' = snd (checkForNewProducts cfg w1 s)"
  define x where "x = (if cached = [] then ps1 else stamp w1 0 (newProducts ps1 cached))"
  have l': "loadCache s' = Inr (cached @ x)"
    using checkForNewProducts_store [OF assms(3,1), of cfg] by (simp add: s'_def x_def)
  have f2: "fetchProducts w2 s' = (ps2, s2)"
    using assms(7) by (simp add: s'_def)
  from fetchProducts_effect [OF assms(3,1), of n] obtain ds1 where
    e1: "events s1 = events s @ ds1" and
    c1: "image_fetches n ds1 \<le> (if stored_imageId cached n = None then count_list (listing_names w1) n else 0)" and
    r1: "\<forall>q\<in>set ps1. carries_id cached q"
    by blast
  have c1': "image_fetches n ds1 \<le> (if stored_imageId cached n = None then 1 else 0)"
    using c1 count_list_distinct [OF assms(6), of n] by (auto split: if_splits)
  from r1 assms(4) have "carries_id cached p"
    by blast
  then obtain v where v: "imageId p = Some v" "v \<noteq> []"
    and vs: "\<And>u. stored_imageId cached n = Some u \<Longrightarrow> u = v"
    using assms(5) by (auto simp: carries_id_def split: option.splits)
  from checkForNewProducts_effect [OF assms(3,1), of cfg n] obtain ns1 where
    e1': "events s' = events s1 @ ns1" and z1: "image_fetches n ns1 = 0"
    unfolding s'_def by blast
  have stored: "stored_imageId (cached @ x) n = Some v"
  proof (cases "stored_imageId cached n")
    case (Some u)
    then have "n \<in> name ` set cached"
      by (rule stored_imageId_known)
    then show ?thesis
      using Some vs by (simp add: stored_imageId_append_known)
  next
    case None
    with assms(2) have unknown: "n \<notin> name ` set cached"
      by simp
    have dps: "distinct (map name ps1)"
      using assms(3,6) by (rule fetchProducts_distinct)
    have pnew: "p \<in> set (newProducts ps1 cached)"
      using assms(4,5) unknown by (simp add: newProducts_filter)
    have dnew: "distinct (map name (newProducts ps1 cached))"
      using dps by (simp add: newProducts_filter distinct_map_filter)
    have "\<exists>r\<in>set x. name r = n \<and> imageId r = Some v"
    proof (cases "cached = []")
      case True
      then show ?thesis
        using assms(4,5) v by (auto simp: x_def)
    next
      case False
      then show ?thesis
        using stamp_member [OF pnew, of w1 0] assms(5) v by (auto simp: x_def)
    qed
    moreover have "distinct (map name x)"
      using dps dnew by (simp add: x_def stamp_names)
    ultimately have "stored_imageId x n = Some v"
      using v(2) stored_imageId_unique by blast
    then show ?thesis
      using unknown by (simp add: stored_imageId_append_unknown)
  qed
  from fetchProducts_effect [OF f2 l', of n] stored obtain ds2 where
    e2: "events s2 = events s' @ ds2" and
    c2: "image_fetches n ds2 = 0" and
    r2: "\<forall>q\<in>set ps2. carries_id (cached @ x) q"
    by auto
  have idq: "imageId q = Some v" if "q \<in> set ps2" and "name q = n" for q
  proof -
    from r2 that(1) have "carries_id (cached @ x) q"
      by blast
    then show ?thesis
      using stored that(2) by (auto simp: carries_id_def split: option.splits)
  qed
  from checkForNewProducts_effect [OF f2 l', of cfg n] obtain ns2 where
    e2': "events (snd (checkForNewProducts cfg w2 s')) = events s2 @ ns2"
    and z2: "image_fetches n ns2 = 0"
    by blast
  have "events s2 = events s @ (ds1 @ ns1 @ ds2)"
    using e1 e1' e2 by simp
  then have em2: "emitted s s2 = ds1 @ ns1 @ ds2"
    by (rule emitted_append)
  have run: "run_cycles cfg [w1, w2] s = snd (checkForNewProducts cfg w2 s')"
    by (simp add: s'_def)
  have "events (run_cycles cfg [w1, w2] s) = events s @ (ds1 @ ns1 @ ds2 @ ns2)"
    using run e1 e1' e2 e2' by simp
  then have em3: "emitted s (run_cycles cfg [w1, w2] s) = ds1 @ ns1 @ ds2 @ ns2"
    by (rule emitted_append)
  have "image_fetches n (emitted s s2) = image_fetches n ds1"
    using em2 z1 c2 by (simp add: image_fetches_append)
  moreover have "image_fetches n (emitted s (run_cycles cfg [w1, w2] s)) = image_fetches n ds1"
    using em3 z1 c2 z2 by (simp add: image_fetches_append)
  ultimately show ?thesis
    using idq v(1) c1' by simp
qed

theorem imageId_stable_across_cycles_witness:
  "loadCache (store_of [pigeon]) = Inr [pigeon]
   \<and> ''TalonFXS'' \<notin> name ` set [pigeon]
   \<and> product_of talon ''00000000000000000000000000000002'' None
        \<in> set (fst (fetchProducts (world_of [kraken, talon]) (store_of [pigeon])))
   \<and> distinct (listing_names (world_of [kraken, talon]))
   \<and> product_of talon ''00000000000000000000000000000002'' None
        \<in> set (fst (fetchProducts later_listing
             (snd (checkForNewProducts slack_off (world_of [kraken, talon]) (store_of [pigeon])))))
   \<and> imageId (product_of talon ''00000000000000000000000000000002'' None)
       = Some ''00000000000000000000000000000002''
   \<and> image_fetches ''TalonFXS'' (emitted (store_of [pigeon])
        (run_cycles slack_off [world_of [kraken, talon], later_listing] (store_of [pigeon]))) \<le> 1"
proof -
  obtain ps1 s1 where f1: "fetchProducts (world_of [kraken, talon]) (store_of [pigeon]) = (ps1, s1)"
    by (cases "fetchProducts (world_of [kraken, talon]) (store_of [pigeon])")
  obtain ps2 s2 where f2: "fetchProducts later_listing
      (snd (checkForNewProducts slack_off (world_of [kraken, talon]) (store_of [pigeon]))) = (ps2, s2)"
    by (cases "fetchProducts later_listing
      (snd (checkForNewProducts slack_off (world_of [kraken, talon]) (store_of [pigeon])))")
  have l: "loadCache (store_of [pigeon]) = Inr [pigeon]"
    by code_simp
  have u: "''TalonFXS'' \<notin> name ` set [pigeon]"
    by (simp add: pigeon_def)
  then have k: "''TalonFXS'' \<notin> name ` set [pigeon] \<or> stored_imageId [pigeon] ''TalonFXS'' \<noteq> None"
    by simp
  have n: "stored_imageId [pigeon] ''TalonFXS'' = None"
    by code_simp
  have p: "product_of talon ''00000000000000000000000000000002'' None
        \<in> set (fst (fetchProducts (world_of [kraken, talon]) (store_of [pigeon])))"
    by code_simp
  then have p': "product_of talon ''00000000000000000000000000000002'' None \<in> set ps1"
    using f1 by simp
  have pn: "name (product_of talon ''00000000000000000000000000000002'' None) = ''TalonFXS''"
    by (simp add: product_of_def talon_def)
  have d: "distinct (listing_names (world_of [kraken, talon]))"
    by code_simp
  have q: "product_of talon ''00000000000000000000000000000002'' None
        \<in> set (fst (fetchProducts later_listing
             (snd (checkForNewProducts slack_off (world_of [kraken, talon]) (store_of [pigeon])))))"
    by code_simp
  have pi: "imageId (product_of talon ''00000000000000000000000000000002'' None)
      = Some ''00000000000000000000000000000002''"
    by (simp add: product_of_def)
  show ?thesis
    using imageId_stable_across_cycles [OF l k f1 p' pn d f2] l u p d q n f2 pi
    by simp
qed

text \<open>
  For a stored record without identifier stability fails: the record stays in the store as
  it is, each cycle downloads the image again, and the two cycles return the identifiers
  drawn in each.
\<close>

theorem imageId_stability_counterexample:
  "loadCache (store_of [old_kraken]) = Inr [old_kraken]
   \<and> loadCache (snd (checkForNewProducts slack_off (world_of [kraken]) (store_of [old_kraken])))
       = Inr [old_kraken]
   \<and> map imageId (fst (fetchProducts (world_of [kraken]) (store_of [old_kraken])))
       = [Some ''00000000000000000000000000000001'']
   \<and> map imageId (fst (fetchProducts later_draw
        (snd (checkForNewProducts slack_off (world_of [kraken]) (store_of [old_kraken])))))
       = [Some ''000000000000000000000000000000ff'']
   \<and> image_fetches ''Kraken X60'' (emitted (store_of [old_kraken])
        (run_cycles slack_off [world_of [kraken], later_draw] (store_of [old_kraken]))) = 2
   \<and> image_fetches ''Kraken X60'' (emitted (store_of [old_kraken])
        (run_cycles slack_off [world_of [kraken], world_of [kraken]] (store_of [old_kraken]))) = 2"
  by code_simp

text \<open>
  The two conditions on the first cycle are needed. When a later download of the first
  cycle fails, the product already resolved is dropped with the rest, nothing is saved,
  and the next cycle downloads its image again under a new identifier. And only the first
  stored record of a name is looked at: an identifier on a later record of that name does
  not prevent the download.
\<close>

lemma imageId_lost_when_first_cycle_fails:
  "''Kraken X60'' \<notin> name ` set [pigeon]
   \<and> distinct (listing_names second_image_fails)
   \<and> fst (fetchProducts second_image_fails (store_of [pigeon])) = []
   \<and> loadCache (snd (checkForNewProducts slack_off second_image_fails (store_of [pigeon])))
       = Inr [pigeon]
   \<and> map imageId (fst (fetchProducts later_draw
        (snd (checkForNewProducts slack_off second_image_fails (store_of [pigeon])))))
       = [Some ''000000000000000000000000000000ff'']
   \<and> emitted (store_of [pigeon])
        (snd (checkForNewProducts slack_off second_image_fails (store_of [pigeon])))
       = [ImageFetch ''Kraken X60'' ''https://wcproducts.com/cdn/shop/files/kraken_145x.png'',
          ImageWrite ''00000000000000000000000000000001''
            ''https://wcproducts.com/cdn/shop/files/kraken_145x.png'',
          ImageFetch ''TalonFXS'' ''https://wcproducts.com/cdn/shop/files/TalonFXS_145x.png'']
   \<and> image_fetches ''Kraken X60'' (emitted (store_of [pigeon])
        (run_cycles slack_off [second_image_fails, later_draw] (store_of [pigeon]))) = 2"
  by code_simp

lemma imageId_of_later_record_ignored:
  "stored_imageId [old_kraken, product_of kraken ''0123456789abcdef0123456789abcdef'' None]
      ''Kraken X60'' = None
   \<and> map imageId (fst (fetchProducts (world_of [kraken])
        (store_of [old_kraken, product_of kraken ''0123456789abcdef0123456789abcdef'' None])))
       = [Some ''00000000000000000000000000000001'']
   \<and> image_fetches ''Kraken X60'' (emitted
        (store_of [old_kraken, product_of kraken ''0123456789abcdef0123456789abcdef'' None])
        (snd (fetchProducts (world_of [kraken])
          (store_of [old_kraken, product_of kraken ''0123456789abcdef0123456789abcdef'' None]))))
       = 1"
  by code_simp

section \<open>The earlier variant on the same inputs\<close>

text \<open>
  \<open>main.js\<close> has the same order of notifying and saving, and the same single \<open>try\<close>
  around the loop; it has no first-run gate.
\<close>

lemma main_js_notifies_then_saves:
  "map is_CacheWrite (emitted (store_of [pigeon])
       (snd (main_js_checkForNewProducts (world_of [talon]) (store_of [pigeon]))))
     = [False, False, False, True]
   \<and> map name (notified (emitted (store_of [pigeon])
       (snd (main_js_checkForNewProducts (world_of [talon]) (store_of [pigeon])))))
     = [''TalonFXS'']"
  by code_simp

lemma main_js_image_failure:
  "fst (main_js_fetchProducts third_image_fails (store_of [pigeon])) = []
   \<and> loadCache (snd (main_js_checkForNewProducts third_image_fails (store_of [pigeon])))
     = Inr [pigeon]"
  by code_simp

lemma main_js_first_run_notifies:
  "map name (notified (emitted no_store
       (snd (main_js_checkForNewProducts (world_of [kraken, talon]) no_store))))
     = [''Kraken X60'', ''TalonFXS'']
   \<and> map name (notified (emitted no_store
       (snd (checkForNewProducts slack_off (world_of [kraken, talon]) no_store))))
     = []"
  by code_simp

end
